theory Spec2Isabelle
  imports Main "HOL-Library.AList" "HOL-Library.Sublist"
begin

section \<open>Values, errors and files\<close>

text \<open>
  The options tree and the defaults tree hold JSON-compatible Python values. A Python
  \<^verbatim>\<open>dict\<close> keeps its keys in insertion order, so a mapping is an association list;
  \<open>map_of\<close> reads it and \<open>AList.update\<close> writes it (an existing key keeps its place,
  a new key goes to the end), as \<^verbatim>\<open>d[k] = v\<close> does. Numbers are Python's unbounded
  integers; floats are left out.
\<close>

datatype json =
    JNull
  | JBool bool
  | JInt int
  | JStr string
  | JList "json list"
  | JObj "(string \<times> json) list"

type_synonym dict = "(string \<times> json) list"

text \<open>
  The exceptions the code can raise. \<open>EmptyDefaults\<close> is the plain \<^verbatim>\<open>Exception\<close> of
  \<^verbatim>\<open>try_defaults\<close> ("Attempted to load defaults but defaults are empty.").
\<close>

datatype error =
    FileNotFoundError
  | EmptyDefaults
  | AttributeError
  | KeyError
  | IndexError
  | TypeError

text \<open>
  What a file holds, as \<^verbatim>\<open>json.load\<close> sees it: text that parses to a JSON value, or
  text that makes it raise \<^verbatim>\<open>JSONDecodeError\<close>. \<^verbatim>\<open>json.dump\<close> writes text that parses
  back to the value dumped; the text itself (indentation, number formatting) is not
  modelled.
\<close>

datatype content = Doc json | Malformed

section \<open>The dotted-key dictionary\<close>

text \<open>
  Modelled from the spec: the \<^verbatim>\<open>dotty_dict\<close> library (\<^verbatim>\<open>Dotty\<close>, \<^verbatim>\<open>dotty\<close>) that
  \<^verbatim>\<open>config.py\<close> imports is not part of the sources. The spec describes it as a nested
  mapping "addressed externally via dot-separated path strings": a write goes to "the
  given dotted path in the options tree, creating intermediate nested mappings as needed",
  and a "missing path on get yields default, not an error". The definitions below follow
  the library's recursive helpers \<^verbatim>\<open>_split\<close>, \<^verbatim>\<open>get_from\<close>, \<^verbatim>\<open>set_to\<close> and
  \<^verbatim>\<open>search_in\<close> on nested mappings with string keys. Where a path runs into a value
  that is not a mapping the model raises \<open>TypeError\<close>; the library's treatment of list
  indices, of slices and of its escape character is outside the model.
\<close>

text \<open>\<^verbatim>\<open>str.split(sep)\<close> for a one-character separator: never the empty list.\<close>

fun str_split :: "char \<Rightarrow> string \<Rightarrow> string list" where
  "str_split sep [] = [[]]"
| "str_split sep (c # cs) =
     (if c = sep then [] # str_split sep cs
      else (case str_split sep cs of
              [] \<Rightarrow> [[c]]
            | w # ws \<Rightarrow> (c # w) # ws))"

text \<open>\<^verbatim>\<open>sep.join(parts)\<close>.\<close>

fun str_join :: "string \<Rightarrow> string list \<Rightarrow> string" where
  "str_join sep [] = []"
| "str_join sep [p] = p"
| "str_join sep (p # ps) = p @ sep @ str_join sep ps"

definition dotty_split :: "string \<Rightarrow> string list" where
  "dotty_split key = str_split (CHR ''.'') key"

text \<open>
  \<^verbatim>\<open>get_from(items, data)\<close>: \<^verbatim>\<open>it = items.pop(0); data = data[it]\<close>, then recurse while
  items remain. A missing key is Python's \<open>KeyError\<close>.
\<close>

fun get_from :: "string list \<Rightarrow> dict \<Rightarrow> error + json" where
  "get_from [] data = Inl IndexError"
| "get_from (it # items) data =
     (case map_of data it of
        None \<Rightarrow> Inl KeyError
      | Some d \<Rightarrow>
          if items = [] then Inr d
          else (case d of
                  JObj m \<Rightarrow> get_from items m
                | _ \<Rightarrow> Inl TypeError))"

text \<open>
  \<^verbatim>\<open>set_to(items, data)\<close>: \<^verbatim>\<open>item = items.pop(0)\<close>; when items remain,
  \<^verbatim>\<open>if item not in data: data[item] = {}\<close> and recurse into \<^verbatim>\<open>data[item]\<close>; otherwise
  \<^verbatim>\<open>data[item] = value\<close>.
\<close>

fun set_to :: "string list \<Rightarrow> json \<Rightarrow> dict \<Rightarrow> error + dict" where
  "set_to [] v data = Inl IndexError"
| "set_to (item # items) v data =
     (if items = [] then Inr (AList.update item v data)
      else (case map_of data item of
              None \<Rightarrow>
                (case set_to items v [] of
                   Inl e \<Rightarrow> Inl e
                 | Inr m' \<Rightarrow> Inr (AList.update item (JObj m') data))
            | Some (JObj m) \<Rightarrow>
                (case set_to items v m of
                   Inl e \<Rightarrow> Inl e
                 | Inr m' \<Rightarrow> Inr (AList.update item (JObj m') data))
            | Some _ \<Rightarrow> Inl TypeError))"

text \<open>
  \<^verbatim>\<open>search_in(items, data)\<close>: \<^verbatim>\<open>it = items.pop(0)\<close>;
  \<^verbatim>\<open>if items and it in data: return search_in(items, data[it])\<close>;
  \<^verbatim>\<open>return it in data\<close>.
\<close>

fun search_in :: "string list \<Rightarrow> dict \<Rightarrow> error + bool" where
  "search_in [] data = Inl IndexError"
| "search_in (it # items) data =
     (if items \<noteq> [] \<and> map_of data it \<noteq> None then
        (case map_of data it of
           Some (JObj m) \<Rightarrow> search_in items m
         | _ \<Rightarrow> Inl TypeError)
      else Inr (map_of data it \<noteq> None))"

definition dotty_getitem :: "dict \<Rightarrow> string \<Rightarrow> error + json" where
  "dotty_getitem data key = get_from (dotty_split key) data"

definition dotty_setitem :: "dict \<Rightarrow> string \<Rightarrow> json \<Rightarrow> error + dict" where
  "dotty_setitem data key v = set_to (dotty_split key) v data"

definition dotty_contains :: "dict \<Rightarrow> string \<Rightarrow> error + bool" where
  "dotty_contains data key = search_in (dotty_split key) data"

text \<open>
  \<^verbatim>\<open>Dotty.get(key, default)\<close>: \<^verbatim>\<open>__getitem__\<close>, with \<open>KeyError\<close> and \<open>IndexError\<close>
  caught and answered by the default.
\<close>

definition dotty_get :: "dict \<Rightarrow> string \<Rightarrow> json \<Rightarrow> error + json" where
  "dotty_get data key dflt =
     (case dotty_getitem data key of
        Inl KeyError \<Rightarrow> Inr dflt
      | Inl IndexError \<Rightarrow> Inr dflt
      | Inl e \<Rightarrow> Inl e
      | Inr v \<Rightarrow> Inr v)"

section \<open>The Config class\<close>

text \<open>
  A \<^verbatim>\<open>Config\<close> object with the part of the world it acts on: its three attributes, the
  files on disk (path to content; an absent path is a file that does not exist), and the
  number of writes \<^verbatim>\<open>save\<close> has completed. Opening the location for writing is taken
  to succeed. The diagnostic \<^verbatim>\<open>print\<close> calls are left out.
\<close>

record state =
  location :: string
  opt :: dict
  defaults :: dict
  disk :: "string \<Rightarrow> content option"
  saves :: nat

text \<open>\<^verbatim>\<open>Config(location_local)\<close>, on a given disk.\<close>

definition init :: "string \<Rightarrow> (string \<Rightarrow> content option) \<Rightarrow> state" where
  "init location_local d =
     \<lparr>location = location_local, opt = [], defaults = [], disk = d, saves = 0\<rparr>"

definition set_location :: "string \<Rightarrow> state \<Rightarrow> state" where
  "set_location location_local st = st\<lparr>location := location_local\<rparr>"

definition get_defaults :: "state \<Rightarrow> dict" where
  "get_defaults st = defaults st"

definition set_defaults :: "dict \<Rightarrow> state \<Rightarrow> state" where
  "set_defaults d st = st\<lparr>defaults := d\<rparr>"

text \<open>
  The \<^verbatim>\<open>object\<close> argument of \<^verbatim>\<open>push\<close> and \<^verbatim>\<open>fetch\<close>: a string or a tuple of strings;
  \<^verbatim>\<open>if isinstance(object, tuple): object = ".".join(object)\<close>.
\<close>

datatype path = Str string | Tuple "string list"

fun joined :: "path \<Rightarrow> string" where
  "joined (Str s) = s"
| "joined (Tuple segments) = str_join ''.'' segments"

definition push :: "path \<Rightarrow> json \<Rightarrow> state \<Rightarrow> error + state" where
  "push object v st =
     (case dotty_setitem (opt st) (joined object) v of
        Inl e \<Rightarrow> Inl e
      | Inr m \<Rightarrow> Inr (st\<lparr>opt := m\<rparr>))"

text \<open>
  \<^verbatim>\<open>fetch(object, default=None)\<close>. The caller passes a default or omits it
  (\<open>None\<close> here); an omitted default is bound to Python's \<^verbatim>\<open>None\<close>, which is \<open>JNull\<close>.
  \<^verbatim>\<open>self.get_defaults().get(object)\<close> is the \<^verbatim>\<open>get\<close> of a plain \<^verbatim>\<open>dict\<close>: one lookup
  of the whole string.
\<close>

definition dict_get :: "dict \<Rightarrow> string \<Rightarrow> json" where
  "dict_get d key = (case map_of d key of None \<Rightarrow> JNull | Some v \<Rightarrow> v)"

definition fetch :: "path \<Rightarrow> json option \<Rightarrow> state \<Rightarrow> error + json" where
  "fetch object dflt st =
     (let default = (case dflt of None \<Rightarrow> JNull | Some d \<Rightarrow> d);
          key = joined object
      in if default = JNull then
           dotty_get (opt st) key (dict_get (get_defaults st) key)
         else dotty_get (opt st) key default)"

text \<open>
  \<^verbatim>\<open>save()\<close>: \<^verbatim>\<open>json.dump(self._opt.to_dict(), f, indent=4)\<close> into the file at the
  location, opened with \<^verbatim>\<open>"w"\<close>.
\<close>

definition save :: "state \<Rightarrow> state" where
  "save st =
     st\<lparr>disk := (disk st)(location st \<mapsto> Doc (JObj (opt st))), saves := saves st + 1\<rparr>"

text \<open>
  The loop of \<^verbatim>\<open>try_defaults\<close> over \<^verbatim>\<open>self._defaults.items()\<close>, carrying the options,
  \<^verbatim>\<open>should_save\<close> and \<^verbatim>\<open>changed_count\<close>.
\<close>

fun defaults_loop :: "dict \<Rightarrow> dict \<Rightarrow> bool \<Rightarrow> nat \<Rightarrow> error + (dict \<times> bool \<times> nat)" where
  "defaults_loop [] m should_save changed_count = Inr (m, should_save, changed_count)"
| "defaults_loop ((key, v) # items) m should_save changed_count =
     (case dotty_contains m key of
        Inl e \<Rightarrow> Inl e
      | Inr True \<Rightarrow> defaults_loop items m should_save changed_count
      | Inr False \<Rightarrow>
          (case dotty_setitem m key v of
             Inl e \<Rightarrow> Inl e
           | Inr m' \<Rightarrow> defaults_loop items m' True (changed_count + 1)))"

definition try_defaults :: "bool \<Rightarrow> state \<Rightarrow> error + (nat \<times> state)" where
  "try_defaults raise_exception st =
     (if length (defaults st) < 1 then
        (if raise_exception then Inl EmptyDefaults else Inr (0, st))
      else
        (case defaults_loop (defaults st) (opt st) False 0 of
           Inl e \<Rightarrow> Inl e
         | Inr (m, should_save, changed_count) \<Rightarrow>
             (let st' = st\<lparr>opt := m\<rparr>
              in Inr (changed_count, if should_save then save st' else st'))))"

text \<open>
  \<^verbatim>\<open>load(overwrite_regardless=False)\<close>. \<^verbatim>\<open>open(self._location, "r")\<close> raises
  \<open>FileNotFoundError\<close> for a missing file. \<^verbatim>\<open>dotty(...)\<close> wraps a mapping, starts
  from the empty mapping when given \<^verbatim>\<open>None\<close>, and raises \<open>AttributeError\<close> for any
  other value. The dialog of \<^verbatim>\<open>ui.dialog.show_dialog\<close>, an external collaborator, is
  the user's answer: \<open>Some b\<close> when the callback is called with \<open>b\<close>, \<open>None\<close> when it
  never is; the callback is \<^verbatim>\<open>lambda x: self.save() if x else None\<close>.
\<close>

definition load :: "bool \<Rightarrow> bool option \<Rightarrow> state \<Rightarrow> error + state" where
  "load overwrite_regardless answer st =
     (case disk st (location st) of
        None \<Rightarrow> Inl FileNotFoundError
      | Some (Doc j) \<Rightarrow>
          (case j of
             JObj m \<Rightarrow> Inr (st\<lparr>opt := m\<rparr>)
           | JNull \<Rightarrow> Inr (st\<lparr>opt := []\<rparr>)
           | _ \<Rightarrow> Inl AttributeError)
      | Some Malformed \<Rightarrow>
          if overwrite_regardless then
            (case try_defaults True (st\<lparr>opt := []\<rparr>) of
               Inl e \<Rightarrow> Inl e
             | Inr (n, st') \<Rightarrow> Inr st')
          else
            (case answer of
               Some True \<Rightarrow> Inr (save st)
             | _ \<Rightarrow> Inr st))"

text \<open>
  \<^verbatim>\<open>load_and_put_defaults()\<close>: \<^verbatim>\<open>self.load()\<close> and
  \<^verbatim>\<open>self.try_defaults(raise_exception=False)\<close> inside \<^verbatim>\<open>try\<close>;
  \<^verbatim>\<open>except FileNotFoundError: self.save()\<close>.
\<close>

definition load_and_put_defaults :: "bool option \<Rightarrow> state \<Rightarrow> error + state" where
  "load_and_put_defaults answer st =
     (case load False answer st of
        Inl FileNotFoundError \<Rightarrow> Inr (save st)
      | Inl e \<Rightarrow> Inl e
      | Inr st1 \<Rightarrow>
          (case try_defaults False st1 of
             Inl FileNotFoundError \<Rightarrow> Inr (save st1)
           | Inl e \<Rightarrow> Inl e
           | Inr (written, st2) \<Rightarrow> Inr st2))"

section \<open>Notions used to state the properties\<close>

text \<open>
  The nested structure \<open>a \<rightarrow> b\<close> exists in a mapping: \<open>a\<close> holds a mapping that has the
  key \<open>b\<close>. \<open>sub_of\<close> is the mapping under \<open>a\<close>, empty when there is none.
\<close>

definition has_nested :: "dict \<Rightarrow> string \<Rightarrow> string \<Rightarrow> bool" where
  "has_nested m a b =
     (case map_of m a of
        Some (JObj sub) \<Rightarrow> map_of sub b \<noteq> None
      | _ \<Rightarrow> False)"

definition sub_of :: "dict \<Rightarrow> string \<Rightarrow> dict" where
  "sub_of m a = (case map_of m a of Some (JObj sub) \<Rightarrow> sub | _ \<Rightarrow> [])"

text \<open>
  Every value that a path meets before its last segment is a mapping (or the path leaves
  the stored tree there).
\<close>

fun mappings_along :: "string list \<Rightarrow> dict \<Rightarrow> bool" where
  "mappings_along [] data = False"
| "mappings_along (item # items) data =
     (items = [] \<or>
      (case map_of data item of
         None \<Rightarrow> True
       | Some (JObj m) \<Rightarrow> mappings_along items m
       | Some _ \<Rightarrow> False))"

text \<open>
  The defaults of the class docstring; a store constructed on an empty disk with these
  defaults set; a store whose file does not parse; a store with one option, saved.
\<close>

definition example_defaults :: dict where
  "example_defaults =
     [(''app'', JObj [(''test_thing'', JBool True), (''another'', JInt 42)]),
      (''basic_option'', JStr ''basic'')]"

definition fresh :: state where
  "fresh = set_defaults example_defaults (init ''./config.json'' Map.empty)"

definition broken :: state where
  "broken = init ''./config.json'' (Map.empty(''./config.json'' \<mapsto> Malformed))"

definition stored :: state where
  "stored = init ''./config.json''
      (Map.empty(''./config.json'' \<mapsto> Doc (JObj [(''basic_option'', JStr ''basic'')])))
      \<lparr>opt := [(''basic_option'', JStr ''basic'')]\<rparr>"

section \<open>Splitting keys\<close>

lemma str_split_nonempty: "str_split sep s \<noteq> []"
  by (induction s) (auto split: list.splits)

lemma dotty_split_nonempty: "dotty_split key \<noteq> []"
  by (simp add: dotty_split_def str_split_nonempty)

lemma str_split_plain: "sep \<notin> set s \<Longrightarrow> str_split sep s = [s]"
  by (induction s) auto

lemma dotty_split_plain: "CHR ''.'' \<notin> set key \<Longrightarrow> dotty_split key = [key]"
  by (simp add: dotty_split_def str_split_plain)

lemma str_split_append:
  "sep \<notin> set a \<Longrightarrow> str_split sep (a @ sep # b) = a # str_split sep b"
  by (induction a) auto

lemma dotty_split_two:
  "CHR ''.'' \<notin> set a \<Longrightarrow> CHR ''.'' \<notin> set b \<Longrightarrow> dotty_split (a @ ''.'' @ b) = [a, b]"
  by (simp add: dotty_split_def str_split_append str_split_plain)

lemma contains_plain:
  "CHR ''.'' \<notin> set key \<Longrightarrow> dotty_contains m key = Inr (map_of m key \<noteq> None)"
  by (simp add: dotty_contains_def dotty_split_plain)

lemma setitem_plain:
  "CHR ''.'' \<notin> set key \<Longrightarrow> dotty_setitem m key v = Inr (AList.update key v m)"
  by (simp add: dotty_setitem_def dotty_split_plain)

section \<open>Reading after writing\<close>

lemma get_from_set_to:
  "set_to items v data = Inr data' \<Longrightarrow> get_from items data' = Inr v"
proof (induction items arbitrary: data data')
  case Nil
  then show ?case by simp
next
  case (Cons item items)
  show ?case
  proof (cases "items = []")
    case True
    with Cons.prems show ?thesis by (auto simp: update_conv')
  next
    case False
    with Cons.prems Cons.IH show ?thesis
      by (auto simp: update_conv' split: option.splits json.splits sum.splits)
  qed
qed

lemma set_to_prefix_mapping:
  "set_to items v data = Inr data' \<Longrightarrow> pre \<noteq> [] \<Longrightarrow> strict_prefix pre items \<Longrightarrow>
   \<exists>m. get_from pre data' = Inr (JObj m)"
proof (induction items arbitrary: data data' pre)
  case Nil
  then show ?case by simp
next
  case (Cons item items)
  from Cons.prems obtain pre' where pre: "pre = item # pre'" and sp: "strict_prefix pre' items"
    by (cases pre) (auto)
  then have ne: "items \<noteq> []" by auto
  show ?case
  proof (cases "pre' = []")
    case True
    with Cons.prems ne pre show ?thesis
      by (auto simp: update_conv' split: option.splits json.splits sum.splits)
  next
    case False
    with Cons.prems ne pre sp Cons.IH show ?thesis
      by (auto simp: update_conv' split: option.splits json.splits sum.splits)
  qed
qed

lemma get_from_empty: "q \<noteq> [] \<Longrightarrow> get_from q [] = Inl KeyError"
  by (cases q) auto

text \<open>A path that leaves the written path at some segment reads as it did before.\<close>

lemma set_to_frame:
  "set_to items v data = Inr data' \<Longrightarrow> \<not> prefix q items \<Longrightarrow> \<not> prefix items q \<Longrightarrow>
   get_from q data' = get_from q data"
proof (induction items arbitrary: data data' q)
  case Nil
  then show ?case by simp
next
  case (Cons item items)
  show ?case
  proof (cases q)
    case Nil
    with Cons.prems show ?thesis by simp
  next
    case (Cons it q')
    show ?thesis
    proof (cases "it = item")
      case False
      with Cons.prems Cons show ?thesis
        by (auto simp: update_conv' split: option.splits json.splits sum.splits if_splits)
    next
      case True
      with Cons.prems Cons have np: "\<not> prefix q' items" "\<not> prefix items q'" by auto
      then have "items \<noteq> []" "q' \<noteq> []" by auto
      with True Cons.prems Cons np Cons.IH show ?thesis
        by (auto simp: update_conv' get_from_empty split: option.splits json.splits sum.splits if_splits)
    qed
  qed
qed

lemma set_to_fresh: "items \<noteq> [] \<Longrightarrow> \<exists>m'. set_to items v [] = Inr m'"
  by (induction items) auto

lemma set_to_succeeds_iff:
  "(\<exists>data'. set_to items v data = Inr data') \<longleftrightarrow> mappings_along items data"
proof (induction items arbitrary: data)
  case Nil
  then show ?case by simp
next
  case (Cons item items)
  show ?case
  proof (cases "items = []")
    case True
    then show ?thesis by simp
  next
    case False
    then obtain m0 where "set_to items v [] = Inr m0" using set_to_fresh by blast
    with False show ?thesis
      by (auto simp: Cons.IH [symmetric] split: option.splits json.splits sum.splits)
  qed
qed

lemma set_to_error: "set_to items v data = Inl e \<Longrightarrow> e = TypeError \<or> e = IndexError"
  by (induction items arbitrary: data)
     (auto split: option.splits json.splits sum.splits if_splits)

lemma set_to_keeps:
  "set_to p v m = Inr m' \<Longrightarrow> search_in p m = Inr False \<Longrightarrow> get_from q m = Inr x \<Longrightarrow>
   get_from q m' = Inr x \<or> (\<exists>s s'. x = JObj s \<and> get_from q m' = Inr (JObj s'))"
proof (induction p arbitrary: q m m' x)
  case Nil
  then show ?case by simp
next
  case (Cons item items)
  show ?case
  proof (cases q)
    case Nil
    with Cons.prems show ?thesis by simp
  next
    case q: (Cons it q')
    show ?thesis
    proof (cases "it = item")
      case False
      with Cons.prems q show ?thesis
        by (auto simp: update_conv' split: option.splits json.splits sum.splits if_splits)
    next
      case True
      show ?thesis
      proof (cases "items = []")
        case True
        with \<open>it = item\<close> Cons.prems q show ?thesis
          by (auto split: option.splits)
      next
        case False
        from Cons.prems(3) q \<open>it = item\<close> obtain d where d: "map_of m item = Some d"
          by (auto split: option.splits)
        with Cons.prems(1) False obtain sub sub' where
          sub: "d = JObj sub" and st: "set_to items v sub = Inr sub'"
          and m': "m' = AList.update item (JObj sub') m"
          by (auto split: json.splits sum.splits)
        from Cons.prems(2) False d sub have si: "search_in items sub = Inr False" by simp
        show ?thesis
        proof (cases "q' = []")
          case True
          with Cons.prems(3) q \<open>it = item\<close> d sub m' show ?thesis
            by (auto simp: update_conv')
        next
          case nonempty: False
          with Cons.prems(3) q \<open>it = item\<close> d sub have "get_from q' sub = Inr x" by simp
          from Cons.IH [OF st si this] nonempty q \<open>it = item\<close> m' show ?thesis
            by (simp add: update_conv')
        qed
      qed
    qed
  qed
qed

lemma search_in_get_from:
  "q \<noteq> [] \<Longrightarrow> search_in q m = Inr True \<longleftrightarrow> (\<exists>x. get_from q m = Inr x)"
proof (induction q arbitrary: m)
  case Nil
  then show ?case by simp
next
  case (Cons it q)
  show ?case
  proof (cases "q = []")
    case True
    then show ?thesis by (auto split: option.splits)
  next
    case False
    with Cons.IH show ?thesis
      by (auto split: option.splits json.splits)
  qed
qed

section \<open>The loop over the defaults\<close>

lemma card_absent_step:
  assumes "finite K" and "k \<notin> D"
  shows "card (insert k K - D) = Suc (card (K - insert k D))"
proof -
  have "insert k K - D = insert k (K - insert k D)" using assms by auto
  moreover have "k \<notin> K - insert k D" by simp
  moreover have "finite (K - insert k D)" using assms by simp
  ultimately show ?thesis by simp
qed

lemma defaults_loop_plain:
  assumes "\<forall>k \<in> fst ` set ds. CHR ''.'' \<notin> set k"
  shows "\<exists>m'. defaults_loop ds m s c =
            Inr (m', s \<or> (\<exists>k \<in> fst ` set ds. map_of m k = None),
                 c + card (fst ` set ds - dom (map_of m)))
          \<and> (\<forall>x. map_of m' x = (case map_of m x of None \<Rightarrow> map_of ds x | Some y \<Rightarrow> Some y))"
  using assms
proof (induction ds arbitrary: m s c)
  case Nil
  then show ?case by (auto split: option.splits)
next
  case (Cons kv ds)
  obtain k v where kv: "kv = (k, v)" by (cases kv)
  from Cons.prems kv have plain: "CHR ''.'' \<notin> set k"
    and rest: "\<forall>k \<in> fst ` set ds. CHR ''.'' \<notin> set k" by auto
  show ?case
  proof (cases "map_of m k")
    case (Some x)
    then have k_in: "k \<in> dom (map_of m)" by auto
    from Cons.IH [OF rest, of m s c] obtain m' where
      loop: "defaults_loop ds m s c =
            Inr (m', s \<or> (\<exists>k \<in> fst ` set ds. map_of m k = None),
                 c + card (fst ` set ds - dom (map_of m)))"
      and mp: "\<forall>x. map_of m' x = (case map_of m x of None \<Rightarrow> map_of ds x | Some y \<Rightarrow> Some y)"
      by blast
    have step: "defaults_loop (kv # ds) m s c = defaults_loop ds m s c"
      using Some kv plain by (simp add: contains_plain)
    have 1: "fst ` set (kv # ds) - dom (map_of m) = fst ` set ds - dom (map_of m)"
      using k_in kv by auto
    have 2: "map_of m' x = (case map_of m x of None \<Rightarrow> map_of (kv # ds) x | Some y \<Rightarrow> Some y)" for x
      using mp Some kv by (auto split: option.splits)
    have 3: "(\<exists>k' \<in> fst ` set (kv # ds). map_of m k' = None)
             \<longleftrightarrow> (\<exists>k' \<in> fst ` set ds. map_of m k' = None)"
      using Some kv by auto
    show ?thesis
      unfolding step 1 3 using loop 2 by blast
  next
    case None
    let ?m1 = "AList.update k v m"
    from Cons.IH [OF rest, of ?m1 True "c + 1"] obtain m' where
      loop: "defaults_loop ds ?m1 True (c + 1) =
            Inr (m', True \<or> (\<exists>k \<in> fst ` set ds. map_of ?m1 k = None),
                 c + 1 + card (fst ` set ds - dom (map_of ?m1)))"
      and mp: "\<forall>x. map_of m' x = (case map_of ?m1 x of None \<Rightarrow> map_of ds x | Some y \<Rightarrow> Some y)"
      by blast
    have step: "defaults_loop (kv # ds) m s c = defaults_loop ds ?m1 True (c + 1)"
      using None kv plain by (simp add: contains_plain setitem_plain)
    have k_out: "k \<notin> dom (map_of m)" using None by auto
    have 4: "dom (map_of ?m1) = insert k (dom (map_of m))"
      by (auto simp: update_conv')
    have 1: "card (fst ` set (kv # ds) - dom (map_of m))
             = Suc (card (fst ` set ds - dom (map_of ?m1)))"
      unfolding 4 using card_absent_step [of "fst ` set ds" k "dom (map_of m)"] k_out kv
      by simp
    have 2: "map_of m' x = (case map_of m x of None \<Rightarrow> map_of (kv # ds) x | Some y \<Rightarrow> Some y)" for x
      using mp None kv by (auto simp: update_conv' split: option.splits)
    have 3: "\<exists>k' \<in> fst ` set (kv # ds). map_of m k' = None"
      using None kv by auto
    have "defaults_loop (kv # ds) m s c =
            Inr (m', s \<or> (\<exists>k \<in> fst ` set (kv # ds). map_of m k = None),
                 c + card (fst ` set (kv # ds) - dom (map_of m)))"
      unfolding step loop 1 using 3 by simp
    with 2 show ?thesis by blast
  qed
qed

lemma defaults_loop_counts:
  "defaults_loop ds m s c = Inr (m', s', c') \<Longrightarrow>
   c \<le> c' \<and> c' \<le> c + length ds \<and> (s' \<longleftrightarrow> s \<or> c < c') \<and> (c' = c \<longrightarrow> m' = m)"
proof (induction ds arbitrary: m s c)
  case Nil
  then show ?case by simp
next
  case (Cons kv ds)
  obtain k v where kv: "kv = (k, v)" by (cases kv)
  show ?case
  proof (cases "dotty_contains m k")
    case (Inl e)
    with Cons.prems kv show ?thesis by simp
  next
    case (Inr present)
    show ?thesis
    proof (cases present)
      case True
      with Inr Cons.prems kv have "defaults_loop ds m s c = Inr (m', s', c')" by simp
      from Cons.IH [OF this] show ?thesis by auto
    next
      case False
      with Inr Cons.prems kv obtain m1 where
        "defaults_loop ds m1 True (c + 1) = Inr (m', s', c')"
        by (auto split: sum.splits)
      from Cons.IH [OF this] show ?thesis by auto
    qed
  qed
qed

lemma defaults_loop_keeps:
  "defaults_loop ds m s c = Inr (m', s', c') \<Longrightarrow> get_from q m = Inr x \<Longrightarrow>
   get_from q m' = Inr x \<or> (\<exists>t t'. x = JObj t \<and> get_from q m' = Inr (JObj t'))"
proof (induction ds arbitrary: m s c x)
  case Nil
  then show ?case by simp
next
  case (Cons kv ds)
  obtain k v where kv: "kv = (k, v)" by (cases kv)
  show ?case
  proof (cases "dotty_contains m k")
    case (Inl e)
    with Cons.prems kv show ?thesis by simp
  next
    case (Inr present)
    show ?thesis
    proof (cases present)
      case True
      with Inr Cons.prems kv have "defaults_loop ds m s c = Inr (m', s', c')" by simp
      from Cons.IH [OF this Cons.prems(2)] show ?thesis .
    next
      case False
      with Inr Cons.prems kv obtain m1 where
        w: "dotty_setitem m k v = Inr m1"
        and l: "defaults_loop ds m1 True (c + 1) = Inr (m', s', c')"
        by (auto split: sum.splits)
      from w Inr False Cons.prems(2)
      have "get_from q m1 = Inr x \<or> (\<exists>t t'. x = JObj t \<and> get_from q m1 = Inr (JObj t'))"
        by (auto simp: dotty_setitem_def dotty_contains_def dest: set_to_keeps)
      then show ?thesis
      proof
        assume "get_from q m1 = Inr x"
        from Cons.IH [OF l this] show ?thesis .
      next
        assume "\<exists>t t'. x = JObj t \<and> get_from q m1 = Inr (JObj t')"
        then obtain t t' where x: "x = JObj t" and g: "get_from q m1 = Inr (JObj t')" by blast
        from Cons.IH [OF l g] x show ?thesis by auto
      qed
    qed
  qed
qed

lemma contains_kept:
  assumes "defaults_loop ds m s c = Inr (m', s', c')" and "dotty_contains m k = Inr True"
  shows "dotty_contains m' k = Inr True"
proof -
  have ne: "dotty_split k \<noteq> []" by (rule dotty_split_nonempty)
  from assms(2) ne obtain x where "get_from (dotty_split k) m = Inr x"
    by (auto simp: dotty_contains_def search_in_get_from)
  from defaults_loop_keeps [OF assms(1) this] have "\<exists>y. get_from (dotty_split k) m' = Inr y"
    by auto
  with ne show ?thesis by (simp add: dotty_contains_def search_in_get_from)
qed

lemma defaults_loop_all_present:
  "defaults_loop ds m s c = Inr (m', s', c') \<Longrightarrow> k \<in> fst ` set ds \<Longrightarrow>
   dotty_contains m' k = Inr True"
proof (induction ds arbitrary: m s c)
  case Nil
  then show ?case by simp
next
  case (Cons kv ds)
  obtain k0 v where kv: "kv = (k0, v)" by (cases kv)
  show ?case
  proof (cases "dotty_contains m k0")
    case (Inl e)
    with Cons.prems kv show ?thesis by simp
  next
    case (Inr present)
    show ?thesis
    proof (cases present)
      case True
      with Inr Cons.prems kv have l: "defaults_loop ds m s c = Inr (m', s', c')" by simp
      show ?thesis
      proof (cases "k = k0")
        case True
        with contains_kept [OF l] Inr \<open>present\<close> show ?thesis by simp
      next
        case False
        with Cons.prems(2) kv have "k \<in> fst ` set ds" by auto
        from Cons.IH [OF l this] show ?thesis .
      qed
    next
      case False
      with Inr Cons.prems kv obtain m1 where
        w: "dotty_setitem m k0 v = Inr m1"
        and l: "defaults_loop ds m1 True (c + 1) = Inr (m', s', c')"
        by (auto split: sum.splits)
      show ?thesis
      proof (cases "k = k0")
        case True
        from w have "get_from (dotty_split k0) m1 = Inr v"
          by (simp add: dotty_setitem_def get_from_set_to)
        then have "dotty_contains m1 k0 = Inr True"
          using dotty_split_nonempty [of k0]
          by (auto simp: dotty_contains_def search_in_get_from)
        with contains_kept [OF l] True show ?thesis by simp
      next
        case False
        with Cons.prems(2) kv have "k \<in> fst ` set ds" by auto
        from Cons.IH [OF l this] show ?thesis .
      qed
    qed
  qed
qed

section \<open>Empty defaults\<close>

text \<open>
  C4. With an empty defaults tree, \<open>try_defaults\<close> raises the empty-defaults exception
  exactly when \<open>raise_exception\<close> is true; when it is false the call returns 0 and the
  whole state (options tree, files, number of saves) is the one it started from.
\<close>

theorem try_defaults_empty:
  assumes "defaults st = []"
  shows "((\<exists>e. try_defaults raise_exception st = Inl e) \<longleftrightarrow> raise_exception)
       \<and> (raise_exception \<longrightarrow> try_defaults raise_exception st = Inl EmptyDefaults)
       \<and> try_defaults False st = Inr (0, st)"
  using assms by (simp add: try_defaults_def)

theorem try_defaults_empty_witness:
  "defaults (init ''./config.json'' Map.empty) = []
   \<and> try_defaults True (init ''./config.json'' Map.empty) = Inl EmptyDefaults
   \<and> try_defaults False (init ''./config.json'' Map.empty)
       = Inr (0, init ''./config.json'' Map.empty)"
  using try_defaults_empty [of "init ''./config.json'' Map.empty" True]
  by (simp add: init_def)

section \<open>Writing and reading an option\<close>



text \<open>
  \<open>push\<close> returns exactly when every value the path meets before its last segment is a
  mapping; on a fresh store it always does.
\<close>

lemma push_succeeds_iff:
  "(\<exists>st'. push P V st = Inr st') \<longleftrightarrow> mappings_along (dotty_split (joined P)) (opt st)"
proof -
  have "(\<exists>st'. push P V st = Inr st')
        \<longleftrightarrow> (\<exists>m. set_to (dotty_split (joined P)) V (opt st) = Inr m)"
    by (auto simp: push_def dotty_setitem_def split: sum.splits)
  then show ?thesis by (simp add: set_to_succeeds_iff)
qed

text \<open>
  C8. Whenever \<open>push P V\<close> returns, the files on disk and the number of completed saves
  are what they were (and so are the location and the defaults); \<open>V\<close> is stored at the
  dotted path \<open>P\<close> of the options tree; every proper prefix of the path holds a mapping,
  created where it was missing; and every path that leaves \<open>P\<close> at some segment reads as
  it did before.
\<close>

theorem push_writes_without_saving:
  assumes "push P V st = Inr st'"
  shows "disk st' = disk st \<and> saves st' = saves st
       \<and> location st' = location st \<and> defaults st' = defaults st
       \<and> dotty_getitem (opt st') (joined P) = Inr V
       \<and> (\<forall>pre. pre \<noteq> [] \<and> strict_prefix pre (dotty_split (joined P)) \<longrightarrow>
             (\<exists>m. get_from pre (opt st') = Inr (JObj m)))
       \<and> (\<forall>q. \<not> prefix q (dotty_split (joined P)) \<and> \<not> prefix (dotty_split (joined P)) q \<longrightarrow>
             get_from q (opt st') = get_from q (opt st))"
proof -
  from assms have w: "set_to (dotty_split (joined P)) V (opt st) = Inr (opt st')"
    and fr: "st' = st\<lparr>opt := opt st'\<rparr>"
    by (auto simp: push_def dotty_setitem_def split: sum.splits)
  have 1: "disk st' = disk st \<and> saves st' = saves st
       \<and> location st' = location st \<and> defaults st' = defaults st"
    using assms by (auto simp: push_def split: sum.splits)
  have 2: "dotty_getitem (opt st') (joined P) = Inr V"
    using w by (simp add: dotty_getitem_def get_from_set_to)
  have 3: "\<exists>m. get_from pre (opt st') = Inr (JObj m)"
    if "pre \<noteq> [] \<and> strict_prefix pre (dotty_split (joined P))" for pre
    using set_to_prefix_mapping [OF w] that by blast
  have 4: "get_from q (opt st') = get_from q (opt st)"
    if "\<not> prefix q (dotty_split (joined P)) \<and> \<not> prefix (dotty_split (joined P)) q" for q
    using set_to_frame [OF w] that by blast
  from 1 2 3 4 show ?thesis by blast
qed

theorem push_writes_without_saving_witness:
  "push (Str ''dict1.dict2.objectname'') (JInt 42) stored
     = Inr (stored\<lparr>opt := [(''basic_option'', JStr ''basic''),
                           (''dict1'', JObj [(''dict2'', JObj [(''objectname'', JInt 42)])])]\<rparr>)
   \<and> disk (stored\<lparr>opt := [(''basic_option'', JStr ''basic''),
                           (''dict1'', JObj [(''dict2'', JObj [(''objectname'', JInt 42)])])]\<rparr>)
        ''./config.json''
      = Some (Doc (JObj [(''basic_option'', JStr ''basic'')]))"
proof -
  let ?st' = "stored\<lparr>opt := [(''basic_option'', JStr ''basic''),
                           (''dict1'', JObj [(''dict2'', JObj [(''objectname'', JInt 42)])])]\<rparr>"
  have p: "push (Str ''dict1.dict2.objectname'') (JInt 42) stored = Inr ?st'"
    by (simp add: push_def dotty_setitem_def dotty_split_def stored_def init_def)
  have d: "disk stored ''./config.json'' = Some (Doc (JObj [(''basic_option'', JStr ''basic'')]))"
    by (simp add: stored_def init_def)
  from push_writes_without_saving [OF p] have "disk ?st' = disk stored" by blast
  with p d show ?thesis by simp
qed

section \<open>Falling back to the defaults\<close>

text \<open>
  C2, as the claim states it, fails on the docstring's own example: with the defaults
  \<open>app \<rightarrow> {test_thing: true, another: 42}\<close> and nothing stored, the path
  \<open>app.test_thing\<close> leads to \<open>true\<close> in the defaults tree, yet \<open>fetch\<close> returns null.
\<close>

theorem fetch_nested_default_counterexample:
  "dotty_getitem (opt fresh) ''app.test_thing'' = Inl KeyError
   \<and> dotty_getitem (defaults fresh) ''app.test_thing'' = Inr (JBool True)
   \<and> fetch (Str ''app.test_thing'') None fresh = Inr JNull"
  by (simp add: fresh_def example_defaults_def set_defaults_def init_def fetch_def
      get_defaults_def dict_get_def dotty_get_def dotty_getitem_def dotty_split_def)

text \<open>
  C2, amended. When no value is stored at \<open>P\<close> and the default is omitted, \<open>fetch P\<close>
  returns what the defaults tree holds under the single top-level key equal to the whole
  joined path string, and null when it has no such key. Nested mappings of the defaults
  tree are not traversed.
\<close>

theorem fetch_falls_back_flat:
  assumes "dotty_getitem (opt st) (joined P) = Inl KeyError"
  shows "fetch P None st =
           Inr (case map_of (defaults st) (joined P) of None \<Rightarrow> JNull | Some v \<Rightarrow> v)"
  using assms by (simp add: fetch_def dotty_get_def dict_get_def get_defaults_def)

theorem fetch_falls_back_flat_witness:
  "dotty_getitem (opt fresh) (joined (Str ''basic_option'')) = Inl KeyError
   \<and> fetch (Str ''basic_option'') None fresh = Inr (JStr ''basic'')"
proof -
  have h: "dotty_getitem (opt fresh) (joined (Str ''basic_option'')) = Inl KeyError"
    by (simp add: fresh_def set_defaults_def init_def dotty_getitem_def dotty_split_def)
  from fetch_falls_back_flat [OF h] h show ?thesis
    by (simp add: fresh_def example_defaults_def set_defaults_def init_def)
qed

text \<open>
  C9. Passing null as the default is the same call as omitting the default: both run the
  same lookup, and when nothing is stored at \<open>P\<close> both return the defaults' entry for the
  joined path, so null cannot be supplied to suppress the defaults.
\<close>

theorem fetch_null_default:
  "fetch P (Some JNull) st = fetch P None st
   \<and> (dotty_getitem (opt st) (joined P) = Inl KeyError \<longrightarrow>
        fetch P (Some JNull) st = Inr (dict_get (defaults st) (joined P)))"
  by (simp add: fetch_def dotty_get_def get_defaults_def)

theorem fetch_null_default_witness:
  "dotty_getitem (opt fresh) (joined (Str ''basic_option'')) = Inl KeyError
   \<and> fetch (Str ''basic_option'') (Some JNull) fresh = Inr (JStr ''basic'')
   \<and> fetch (Str ''basic_option'') None fresh = Inr (JStr ''basic'')"
proof -
  have h: "dotty_getitem (opt fresh) (joined (Str ''basic_option'')) = Inl KeyError"
    by (simp add: fresh_def set_defaults_def init_def dotty_getitem_def dotty_split_def)
  have d: "dict_get (defaults fresh) (joined (Str ''basic_option'')) = JStr ''basic''"
    by (simp add: fresh_def example_defaults_def set_defaults_def init_def dict_get_def)
  from fetch_null_default [of "Str ''basic_option''" fresh] h
  have "fetch (Str ''basic_option'') (Some JNull) fresh = fetch (Str ''basic_option'') None fresh"
    and "fetch (Str ''basic_option'') (Some JNull) fresh
           = Inr (dict_get (defaults fresh) (joined (Str ''basic_option'')))"
    by blast+
  with h d show ?thesis by metis
qed

section \<open>Filling in the defaults\<close>

text \<open>
  C3. Let the defaults tree be non-empty. Whenever \<open>try_defaults\<close> returns \<open>n\<close>: \<open>n\<close> is
  at most the number of defaults; \<open>save\<close> has run once when \<open>0 < n\<close> (and the file then
  holds the new options tree) and not at all when \<open>n = 0\<close> (and then nothing changed);
  every defaults key is present afterwards; and nothing stored before is overwritten: a
  value readable at any path before is still there, a mapping at most having gained
  entries. When no defaults key contains a dot, \<open>try_defaults\<close> always returns, \<open>n\<close> is
  the number of defaults keys absent from the options tree, each key present before keeps
  its value, each absent defaults key gets its default, and no other key appears.
\<close>

theorem try_defaults_writes_absent:
  assumes "defaults st \<noteq> []"
  shows "(\<forall>n st'. try_defaults r st = Inr (n, st') \<longrightarrow>
            n \<le> length (defaults st)
          \<and> saves st' = saves st + (if 0 < n then 1 else 0)
          \<and> (n = 0 \<longrightarrow> st' = st)
          \<and> (0 < n \<longrightarrow> st' = save (st\<lparr>opt := opt st'\<rparr>))
          \<and> (\<forall>k \<in> fst ` set (defaults st). dotty_contains (opt st') k = Inr True)
          \<and> (\<forall>q x. get_from q (opt st) = Inr x \<longrightarrow>
                get_from q (opt st') = Inr x
                \<or> (\<exists>t t'. x = JObj t \<and> get_from q (opt st') = Inr (JObj t'))))
       \<and> ((\<forall>k \<in> fst ` set (defaults st). CHR ''.'' \<notin> set k) \<longrightarrow>
            (\<exists>st'. try_defaults r st
                     = Inr (card (fst ` set (defaults st) - fst ` set (opt st)), st')
                 \<and> (\<forall>k. map_of (opt st') k =
                        (case map_of (opt st) k of
                           None \<Rightarrow> map_of (defaults st) k
                         | Some y \<Rightarrow> Some y))))"
proof (intro conjI allI impI ballI)
  fix n st'
  assume run: "try_defaults r st = Inr (n, st')"
  with assms obtain m s where
    loop: "defaults_loop (defaults st) (opt st) False 0 = Inr (m, s, n)"
    and st': "st' = (if s then save (st\<lparr>opt := m\<rparr>) else st\<lparr>opt := m\<rparr>)"
    by (auto simp: try_defaults_def Let_def split: sum.splits prod.splits)
  from st' have m: "opt st' = m" by (simp add: save_def)
  from defaults_loop_counts [OF loop]
  have c: "n \<le> length (defaults st)" "s \<longleftrightarrow> 0 < n" "n = 0 \<longrightarrow> m = opt st" by auto
  show "n \<le> length (defaults st)" by (rule c)
  show "saves st' = saves st + (if 0 < n then 1 else 0)"
    using st' c by (simp add: save_def)
  show "st' = st" if "n = 0" using that st' c by simp
  show "st' = save (st\<lparr>opt := opt st'\<rparr>)" if "0 < n" using that st' c by (simp add: save_def)
  show "dotty_contains (opt st') k = Inr True" if "k \<in> fst ` set (defaults st)" for k
    using defaults_loop_all_present [OF loop that] m by simp
  show "get_from q (opt st') = Inr x
        \<or> (\<exists>t t'. x = JObj t \<and> get_from q (opt st') = Inr (JObj t'))"
    if "get_from q (opt st) = Inr x" for q x
    using defaults_loop_keeps [OF loop that] m by simp
next
  assume plain: "\<forall>k \<in> fst ` set (defaults st). CHR ''.'' \<notin> set k"
  from defaults_loop_plain [OF plain, of "opt st" False 0] obtain m where
    loop: "defaults_loop (defaults st) (opt st) False 0 =
            Inr (m, False \<or> (\<exists>k \<in> fst ` set (defaults st). map_of (opt st) k = None),
                 0 + card (fst ` set (defaults st) - dom (map_of (opt st))))"
    and mp: "\<forall>x. map_of m x =
               (case map_of (opt st) x of None \<Rightarrow> map_of (defaults st) x | Some y \<Rightarrow> Some y)"
    by blast
  show "\<exists>st'. try_defaults r st
                     = Inr (card (fst ` set (defaults st) - fst ` set (opt st)), st')
                 \<and> (\<forall>k. map_of (opt st') k =
                        (case map_of (opt st) k of
                           None \<Rightarrow> map_of (defaults st) k
                         | Some y \<Rightarrow> Some y))"
    using assms loop mp
    by (auto simp: try_defaults_def Let_def save_def dom_map_of_conv_image_fst)
qed

theorem try_defaults_writes_absent_witness:
  "defaults fresh \<noteq> []
   \<and> try_defaults False fresh = Inr (2, save (fresh\<lparr>opt := example_defaults\<rparr>))
   \<and> saves (save (fresh\<lparr>opt := example_defaults\<rparr>)) = saves fresh + 1
   \<and> try_defaults False (fresh\<lparr>opt := example_defaults\<rparr>)
       = Inr (0, fresh\<lparr>opt := example_defaults\<rparr>)"
proof -
  let ?full = "fresh\<lparr>opt := example_defaults\<rparr>"
  have ne: "defaults fresh \<noteq> []" and ne': "defaults ?full \<noteq> []"
    by (simp_all add: fresh_def example_defaults_def set_defaults_def)
  have run: "try_defaults False fresh = Inr (2, save ?full)"
    by (simp add: fresh_def example_defaults_def set_defaults_def init_def try_defaults_def
        dotty_contains_def dotty_setitem_def dotty_split_def)
  have again: "try_defaults False ?full = Inr (0, ?full)"
    by (simp add: fresh_def example_defaults_def set_defaults_def init_def try_defaults_def
        dotty_contains_def dotty_split_def)
  from try_defaults_writes_absent [OF ne, of False] run
  have "saves (save ?full) = saves fresh + (if 0 < (2::nat) then 1 else 0)" by blast
  with ne run again show ?thesis by simp
qed

text \<open>
  C10. A defaults key \<open>a.b\<close> is a dotted path for \<open>try_defaults\<close>, where \<open>a\<close> is absent
  from the options tree or holds a mapping: the membership test answers whether the nested
  structure \<open>a \<rightarrow> b\<close> exists; the loop skips the key when it does, and otherwise writes
  the value under \<open>b\<close> in the mapping under \<open>a\<close> (created when missing) and counts one
  write; the flat top-level key \<open>a.b\<close> is neither read nor written.
\<close>

theorem dotted_default_key:
  assumes "CHR ''.'' \<notin> set a" and "CHR ''.'' \<notin> set b"
    and "map_of (opt st) a = None \<or> (\<exists>sub. map_of (opt st) a = Some (JObj sub))"
  shows "dotty_contains (opt st) (a @ ''.'' @ b) = Inr (has_nested (opt st) a b)
       \<and> defaults_loop ((a @ ''.'' @ b, v) # items) (opt st) s c =
           (if has_nested (opt st) a b then defaults_loop items (opt st) s c
            else defaults_loop items
                   (AList.update a (JObj (AList.update b v (sub_of (opt st) a))) (opt st))
                   True (c + 1))
       \<and> map_of (AList.update a (JObj (AList.update b v (sub_of (opt st) a))) (opt st))
                (a @ ''.'' @ b)
           = map_of (opt st) (a @ ''.'' @ b)
       \<and> (defaults st = [(a @ ''.'' @ b, v)] \<longrightarrow>
            try_defaults r st =
              (if has_nested (opt st) a b then Inr (0, st)
               else Inr (1, save (st\<lparr>opt :=
                      AList.update a (JObj (AList.update b v (sub_of (opt st) a))) (opt st)\<rparr>))))"
proof -
  let ?key = "a @ CHR ''.'' # b"
  have k: "a @ ''.'' @ b = ?key" by simp
  let ?m' = "AList.update a (JObj (AList.update b v (sub_of (opt st) a))) (opt st)"
  have sp: "dotty_split (a @ CHR ''.'' # b) = [a, b]"
    using dotty_split_two [OF assms(1,2)] by simp
  have c: "dotty_contains (opt st) ?key = Inr (has_nested (opt st) a b)"
    using assms(3) by (auto simp: dotty_contains_def sp has_nested_def)
  have w: "dotty_setitem (opt st) ?key v = Inr ?m'"
    using assms(3) by (auto simp: dotty_setitem_def sp sub_of_def)
  have l: "defaults_loop ((?key, v) # items) (opt st) s c =
           (if has_nested (opt st) a b then defaults_loop items (opt st) s c
            else defaults_loop items ?m' True (c + 1))" for items s c
    by (simp add: c w)
  have "?key \<noteq> a" by simp
  then have f: "map_of ?m' ?key = map_of (opt st) ?key"
    by (simp add: update_conv')
  have t: "try_defaults r st =
              (if has_nested (opt st) a b then Inr (0, st) else Inr (1, save (st\<lparr>opt := ?m'\<rparr>)))"
    if "defaults st = [(?key, v)]"
    using that l [of "[]" False 0] by (simp add: try_defaults_def)
  from c l f t show ?thesis unfolding k by blast
qed

theorem dotted_default_key_witness:
  "map_of (opt ((init ''./config.json'' Map.empty)\<lparr>defaults := [(''a.b'', JInt 1)]\<rparr>)) ''a'' = None
   \<and> try_defaults False ((init ''./config.json'' Map.empty)\<lparr>defaults := [(''a.b'', JInt 1)]\<rparr>)
       = Inr (1, save ((init ''./config.json'' Map.empty)
                    \<lparr>defaults := [(''a.b'', JInt 1)], opt := [(''a'', JObj [(''b'', JInt 1)])]\<rparr>))"
proof -
  let ?st = "(init ''./config.json'' Map.empty)\<lparr>defaults := [(''a.b'', JInt 1)]\<rparr>"
  have a: "CHR ''.'' \<notin> set ''a''" and b: "CHR ''.'' \<notin> set ''b''" by simp_all
  have h: "map_of (opt ?st) ''a'' = None \<or> (\<exists>sub. map_of (opt ?st) ''a'' = Some (JObj sub))"
    by (simp add: init_def)
  have n: "\<not> has_nested (opt ?st) ''a'' ''b''" by (simp add: has_nested_def init_def)
  have d: "defaults ?st = [(''a'' @ ''.'' @ ''b'', JInt 1)]" by simp
  from dotted_default_key [OF a b h, of "JInt 1" _ _ _ False] n d
  have "try_defaults False ?st =
          Inr (1, save (?st\<lparr>opt := AList.update ''a''
                   (JObj (AList.update ''b'' (JInt 1) (sub_of (opt ?st) ''a''))) (opt ?st)\<rparr>))"
    by presburger
  then show ?thesis by (simp add: init_def sub_of_def)
qed

section \<open>Loading and saving\<close>

text \<open>
  C5, as the claim states it, fails for a fresh store with non-empty defaults and no file:
  \<open>load_and_put_defaults\<close> creates a file holding the empty object, not the defaults.
\<close>

theorem missing_file_counterexample:
  "disk fresh (location fresh) = None
   \<and> defaults fresh \<noteq> []
   \<and> load_and_put_defaults None fresh = Inr (save fresh)
   \<and> disk (save fresh) (location fresh) = Some (Doc (JObj []))
   \<and> Doc (JObj []) \<noteq> Doc (JObj (defaults fresh))"
  by (simp add: fresh_def example_defaults_def set_defaults_def init_def
      load_and_put_defaults_def load_def save_def)

text \<open>
  C5, amended. When the file at the location does not exist, \<open>load\<close> raises
  \<open>FileNotFoundError\<close>, and \<open>load_and_put_defaults\<close> does not raise: it saves, so the
  new file holds the options tree as it stands (the empty object for a fresh store),
  whatever the defaults are; options and defaults stay as they were.
\<close>

theorem missing_file:
  assumes "disk st (location st) = None"
  shows "load overwrite_regardless answer st = Inl FileNotFoundError
       \<and> load_and_put_defaults answer st = Inr (save st)
       \<and> disk (save st) (location st) = Some (Doc (JObj (opt st)))
       \<and> opt (save st) = opt st \<and> defaults (save st) = defaults st"
  using assms by (simp add: load_def load_and_put_defaults_def save_def)

theorem missing_file_witness:
  "disk fresh (location fresh) = None
   \<and> load False None fresh = Inl FileNotFoundError
   \<and> load_and_put_defaults None fresh = Inr (save fresh)
   \<and> disk (save fresh) ''./config.json'' = Some (Doc (JObj []))"
proof -
  have h: "disk fresh (location fresh) = None"
    by (simp add: fresh_def set_defaults_def init_def)
  from missing_file [OF h, of False None] h show ?thesis
    by (simp add: fresh_def set_defaults_def init_def)
qed

text \<open>
  C6, as the claim states it, fails when the defaults tree is empty: with
  \<open>overwrite_regardless\<close> true, the empty-defaults exception of \<open>try_defaults\<close> leaves
  \<open>load\<close>.
\<close>

theorem decode_error_counterexample:
  "disk broken (location broken) = Some Malformed
   \<and> load True None broken = Inl EmptyDefaults"
  by (simp add: broken_def init_def load_def try_defaults_def)

text \<open>
  C6, amended. When the file exists and does not parse: with \<open>overwrite_regardless\<close>
  false, \<open>load\<close> raises nothing and leaves the store alone unless the dialog answers
  yes, in which case it saves; with \<open>overwrite_regardless\<close> true, \<open>load\<close> empties the
  options tree and then does what \<open>try_defaults\<close> with \<open>raise_exception\<close> true does: the
  empty-defaults exception leaves \<open>load\<close> when the defaults tree is empty, and for
  non-empty defaults without dotted keys the options tree becomes the defaults and is
  saved once.
\<close>

theorem decode_error:
  assumes "disk st (location st) = Some Malformed"
  shows "load False answer st = Inr (if answer = Some True then save st else st)
       \<and> load True answer st = map_sum id snd (try_defaults True (st\<lparr>opt := []\<rparr>))
       \<and> (defaults st = [] \<longrightarrow> load True answer st = Inl EmptyDefaults)
       \<and> (defaults st \<noteq> [] \<and> (\<forall>k \<in> fst ` set (defaults st). CHR ''.'' \<notin> set k) \<longrightarrow>
            (\<exists>st'. load True answer st = Inr st'
                 \<and> (\<forall>k. map_of (opt st') k = map_of (defaults st) k)
                 \<and> saves st' = saves st + 1
                 \<and> disk st' (location st) = Some (Doc (JObj (opt st')))))"
proof (intro conjI impI)
  show "load False answer st = Inr (if answer = Some True then save st else st)"
    using assms by (cases answer) (auto simp: load_def)
  show eq: "load True answer st = map_sum id snd (try_defaults True (st\<lparr>opt := []\<rparr>))"
    using assms by (auto simp: load_def split: sum.splits)
  show "load True answer st = Inl EmptyDefaults" if "defaults st = []"
    using that assms by (simp add: load_def try_defaults_def)
  assume h: "defaults st \<noteq> [] \<and> (\<forall>k \<in> fst ` set (defaults st). CHR ''.'' \<notin> set k)"
  let ?st0 = "st\<lparr>opt := []\<rparr>"
  from h have plain: "\<forall>k \<in> fst ` set (defaults ?st0). CHR ''.'' \<notin> set k" by simp
  from defaults_loop_plain [OF plain, of "opt ?st0" False 0] obtain m where
    loop: "defaults_loop (defaults st) [] False 0 =
            Inr (m, \<exists>k \<in> fst ` set (defaults st). True, card (fst ` set (defaults st)))"
    and mp: "\<forall>x. map_of m x = map_of (defaults st) x"
    by auto
  from h have "\<exists>k \<in> fst ` set (defaults st). True" by (cases "defaults st") auto
  with loop have loop': "defaults_loop (defaults st) [] False 0 =
            Inr (m, True, card (fst ` set (defaults st)))" by simp
  have "try_defaults True ?st0 = Inr (card (fst ` set (defaults st)), save (?st0\<lparr>opt := m\<rparr>))"
    using h loop' by (simp add: try_defaults_def)
  with eq have "load True answer st = Inr (save (?st0\<lparr>opt := m\<rparr>))" by simp
  with mp show "\<exists>st'. load True answer st = Inr st'
                 \<and> (\<forall>k. map_of (opt st') k = map_of (defaults st) k)
                 \<and> saves st' = saves st + 1
                 \<and> disk st' (location st) = Some (Doc (JObj (opt st')))"
    by (simp add: save_def)
qed

theorem decode_error_witness:
  "disk (set_defaults example_defaults broken) (location (set_defaults example_defaults broken))
     = Some Malformed
   \<and> load False (Some False) (set_defaults example_defaults broken)
       = Inr (set_defaults example_defaults broken)
   \<and> load True None (set_defaults example_defaults broken)
       = Inr (save ((set_defaults example_defaults broken)\<lparr>opt := example_defaults\<rparr>))"
proof -
  let ?st = "set_defaults example_defaults broken"
  have h: "disk ?st (location ?st) = Some Malformed"
    by (simp add: broken_def set_defaults_def init_def)
  have t: "try_defaults True (?st\<lparr>opt := []\<rparr>)
             = Inr (2, save (?st\<lparr>opt := example_defaults\<rparr>))"
    by (simp add: broken_def set_defaults_def init_def example_defaults_def try_defaults_def
        dotty_contains_def dotty_setitem_def dotty_split_def)
  from decode_error [OF h, of "Some False"] decode_error [OF h, of None] h t show ?thesis
    by simp
qed

text \<open>
  C7. Let \<open>save\<close> have written the options tree of a store. Any store whose file at its
  location is the file just written (the same store, the store after further pushes, or
  a new \<^verbatim>\<open>Config\<close> on that location) loads without error, and \<open>load\<close> replaces its
  options tree, whatever it held, by the tree held before the save. In particular \<open>load\<close>
  right after \<open>save\<close> returns with the tree held before the save.
\<close>

theorem save_load_roundtrip:
  assumes "disk st2 (location st2) = disk (save st) (location st)"
  shows "load overwrite_regardless answer st2 = Inr (st2\<lparr>opt := opt st\<rparr>)
       \<and> load overwrite_regardless answer (save st) = Inr (save st)
       \<and> opt (save st) = opt st"
  using assms by (simp add: load_def save_def)

theorem save_load_roundtrip_witness:
  "disk (init ''./config.json'' (disk (save (fresh\<lparr>opt := example_defaults\<rparr>))))
        (location (init ''./config.json'' (disk (save (fresh\<lparr>opt := example_defaults\<rparr>)))))
     = disk (save (fresh\<lparr>opt := example_defaults\<rparr>))
         (location (fresh\<lparr>opt := example_defaults\<rparr>))
   \<and> opt (init ''./config.json'' (disk (save (fresh\<lparr>opt := example_defaults\<rparr>)))) = []
   \<and> load False None (init ''./config.json'' (disk (save (fresh\<lparr>opt := example_defaults\<rparr>))))
       = Inr ((init ''./config.json'' (disk (save (fresh\<lparr>opt := example_defaults\<rparr>))))
                \<lparr>opt := example_defaults\<rparr>)"
proof -
  let ?st = "fresh\<lparr>opt := example_defaults\<rparr>"
  let ?st2 = "init ''./config.json'' (disk (save ?st))"
  have h: "disk ?st2 (location ?st2) = disk (save ?st) (location ?st)"
    by (simp add: init_def fresh_def set_defaults_def)
  have e: "opt ?st2 = []" by (simp add: init_def)
  from save_load_roundtrip [OF h, of False None] have
    "load False None ?st2 = Inr (?st2\<lparr>opt := opt ?st\<rparr>)" by blast
  with h e show ?thesis by simp
qed

end
